theory Spec2Isabelle
  imports Main "HOL-Library.Word"
begin

unbundle bit_operations_syntax

section \<open>Data model of the perceptron predictor (neuropath.cc)\<close>

text \<open>
  The predictor is the C++ class \<open>NeuroPathBP\<close>. Its state is a record; every member
  function takes the state and returns the new one. \<open>unsigned\<close> is a 32-bit word
  (arithmetic wraps), \<open>Addr\<close> is the simulator's 64-bit address, a \<open>std::vector\<close> is a
  list. What C++ leaves undefined (an index outside a vector, a remainder by zero, a
  shift by at least the width, \<open>abs\<close> of the least int, overflow of a signed loop
  counter) and what stops the simulation (\<open>fatal\<close>, \<open>assert\<close>) is an error value, so
  that every result \<open>Inr\<close> is a run in which the source is defined.
\<close>

type_synonym u32 = "32 word"
type_synonym Addr = "64 word"
type_synonym ThreadID = nat

datatype error =
    FatalError
  | AssertionFailed
  | OutOfBounds
  | DivisionByZero
  | UndefinedShift
  | SignedOverflow

text \<open>
  \<open>struct BPHistory\<close>: \<open>lookup\<close> leaves \<open>globalUsed\<close> unset, which is \<open>None\<close> here.
\<close>

record BPHistory =
  globalHistory :: u32
  globalPredTaken :: bool
  globalUsed :: "bool option"

text \<open>
  The members of the class. The class declaration of \<open>NeuroPathBP\<close> is not among the
  sources (the header at hand declares the older class \<open>NeuroBP\<close>, with the \<open>unsigned\<close>
  members \<open>globalPredictorSize\<close>, \<open>globalHistoryBits\<close>, \<open>globalHistoryMask\<close> and
  \<open>historyRegisterMask\<close>). The types of the vectors are read off neuropath.cc: \<open>SR\<close>,
  \<open>R\<close> and the rows of \<open>weightsTable\<close> are \<open>std::vector<unsigned>\<close> (they are assigned
  from such vectors), \<open>G\<close> and \<open>SG\<close> hold the \<open>unsigned\<close> history registers, \<open>path\<close> holds
  addresses. Sizes and counts that index vectors are naturals.
\<close>

text \<open>
  Modelled from the spec: the declarations of the members \<open>max_weight\<close>, \<open>min_weight\<close>,
  \<open>theta\<close> and \<open>perceptronCount\<close> are missing from the sources. The spec calls the
  weight bounds fixed-width signed integers (\<open>maxWeight = 2^(B-1) - 1\<close>,
  \<open>minWeight = -(maxWeight + 1)\<close>) and \<open>theta\<close> an integer fixed at configuration time,
  so the three are C++ \<open>int\<close>s, kept here as the integers they hold; \<open>perceptronCount\<close>
  is the count \<open>P\<close>.
\<close>

record NeuroPathBP =
  globalPredictorSize :: nat
  globalHistoryBits :: nat
  globalHistoryMask :: u32
  historyRegisterMask :: u32
  G :: "u32 list"
  SG :: "u32 list"
  SR :: "u32 list"
  R :: "u32 list"
  perceptronCount :: nat
  theta :: int
  weightsTable :: "u32 list list"
  max_weight :: int
  min_weight :: int
  path :: "Addr list"

section \<open>Helpers of the simulator's base library\<close>

text \<open>
  \<open>isPowerOf2\<close>, \<open>ceilLog2\<close> (base/intmath.hh) and \<open>mask\<close> (base/bitfield.hh) belong to
  the simulator, not to this repository. They are written after their definitions
  there: \<open>isPowerOf2(n)\<close> is \<open>n != 0 && (n & ~(n - 1)) == n\<close>; \<open>ceilLog2(n)\<close> is \<open>0\<close> for
  \<open>n == 1\<close> and \<open>floorLog2(n - 1) + 1\<close> otherwise, the subtraction in the type of \<open>n\<close>;
  \<open>mask(nbits)\<close> is the 64-bit value \<open>(1ULL << nbits) - 1\<close>, all ones for \<open>nbits == 64\<close>.
\<close>

definition isPowerOf2 :: "u32 \<Rightarrow> bool" where
  "isPowerOf2 n = (n \<noteq> 0 \<and> n AND NOT (n - 1) = n)"

fun floorLog2 :: "nat \<Rightarrow> nat" where
  "floorLog2 x = (if x < 2 then 0 else Suc (floorLog2 (x div 2)))"

declare floorLog2.simps [simp del]

definition ceilLog2 :: "u32 \<Rightarrow> nat" where
  "ceilLog2 n = (if n = 1 then 0 else floorLog2 (unat (n - 1)) + 1)"

definition mask_bits :: "nat \<Rightarrow> 64 word" where
  "mask_bits nbits = (if nbits = 64 then - 1 else push_bit nbits 1 - 1)"

section \<open>Construction\<close>

text \<open>
  \<open>theta = 2.14 * (globalPredictorSize + 1) + 20.58\<close> is computed in double precision
  and truncated when stored. Here the decimal arithmetic is exact,
  \<open>(214 * (H + 1) + 2058) div 100\<close>; the rounding of doubles is not modelled. For
  \<open>H = 4\<close> the value is \<open>31.28\<close>, truncated to \<open>31\<close>.
\<close>

definition theta_of :: "nat \<Rightarrow> int" where
  "theta_of H = (214 * (int H + 1) + 2058) div 100"

text \<open>
  The constructor (neuropath.cc, lines 15 to 60). \<open>fatal\<close> is \<open>Inl FatalError\<close>. The last statement shifts the int \<open>1\<close>
  by \<open>globalHistoryBits - 1\<close>, an \<open>unsigned\<close> subtraction: for \<open>globalHistoryBits = 0\<close> the
  count is \<open>2^32 - 1\<close>, and a shift by 32 or more is undefined.
\<close>

definition NeuroPathBP_init :: "u32 \<Rightarrow> nat \<Rightarrow> error + NeuroPathBP" where
  "NeuroPathBP_init psize numThreads =
     (let H = unat psize;
          bits = ceilLog2 psize;
          ghm = psize - 1;
          hrm = (ucast (mask_bits bits) :: u32)
      in if \<not> isPowerOf2 psize then Inl FatalError
         else if ghm > hrm then Inl FatalError
         else if bits = 0 \<or> 32 \<le> bits then Inl UndefinedShift
         else Inr \<lparr> globalPredictorSize = H,
                    globalHistoryBits = bits,
                    globalHistoryMask = ghm,
                    historyRegisterMask = hrm,
                    G = replicate numThreads 0,
                    SG = replicate numThreads 0,
                    SR = replicate (H + 1) 0,
                    R = replicate (H + 1) 0,
                    perceptronCount = 10,
                    theta = theta_of H,
                    weightsTable = replicate 10 (replicate (H + 1) 0),
                    max_weight = 2 ^ (bits - 1) - 1,
                    min_weight = - ((2 ^ (bits - 1) - 1) + 1),
                    path = [] \<rparr>)"

section \<open>The member functions\<close>

text \<open>
  \<open>btbUpdate\<close> (lines 62 to 67): \<open>G[tid] &= (historyRegisterMask & ~ULL(1))\<close>. The right-hand side is
  64 bits wide; the result is stored back into the 32-bit register.
\<close>

definition btbUpdate :: "ThreadID \<Rightarrow> Addr \<Rightarrow> NeuroPathBP \<Rightarrow> error + NeuroPathBP" where
  "btbUpdate tid branch_addr s =
     (if \<not> tid < length (G s) then Inl OutOfBounds
      else Inr (s\<lparr>G := (G s)[tid :=
             ucast ((ucast (G s ! tid) :: 64 word)
                    AND ((ucast (historyRegisterMask s) :: 64 word) AND NOT 1))]\<rparr>))"

text \<open>
  \<open>updatePath\<close> (lines 69 to 76): insert at the front, drop the oldest beyond \<open>H + 1\<close>
  entries.
\<close>

definition updatePath :: "Addr \<Rightarrow> NeuroPathBP \<Rightarrow> NeuroPathBP" where
  "updatePath branch_addr s =
     (let p = branch_addr # path s
      in s\<lparr>path := (if length p > globalPredictorSize s + 1 then butlast p else p)\<rparr>)"

text \<open>
  \<open>saturatedUpdate(unsigned weight, bool inc)\<close> (lines 78 to 83). \<open>weight\<close> is unsigned
  and the bounds are ints, so by the usual arithmetic conversions C++ converts the
  bound to unsigned before it compares (\<open>min_weight = -2\<close> becomes \<open>4294967294\<close>); bounds
  declared \<open>unsigned\<close> would hold these converted values and compare alike.
  \<open>word_of_int\<close> is that conversion and \<open><\<close> on words the unsigned order.
\<close>

definition saturatedUpdate :: "NeuroPathBP \<Rightarrow> u32 \<Rightarrow> bool \<Rightarrow> u32" where
  "saturatedUpdate s weight inc =
     (if inc \<and> weight < word_of_int (max_weight s) then weight + 1
      else if \<not> inc \<and> weight > word_of_int (min_weight s) then weight - 1
      else weight)"

text \<open>
  The same function read with bounds declared in a signed type wider than \<open>unsigned\<close>
  (\<open>long\<close>, or a floating type): the comparison is then between the values, the weight
  being the non-negative number it holds. No member function uses this reading; it
  only serves to show that what is said about \<open>saturatedUpdate\<close> and saturation does
  not hinge on the missing declaration.
\<close>

definition saturatedUpdate_wide :: "NeuroPathBP \<Rightarrow> u32 \<Rightarrow> bool \<Rightarrow> u32" where
  "saturatedUpdate_wide s weight inc =
     (if inc \<and> uint weight < max_weight s then weight + 1
      else if \<not> inc \<and> uint weight > min_weight s then weight - 1
      else weight)"

text \<open>
  Both \<open>lookup\<close> and \<open>update\<close> compute
  \<open>int y_out = weightsTable[curPerceptron][0] + SR[globalPredictorSize]\<close>: an unsigned
  sum read as a signed int.
\<close>

definition y_out :: "NeuroPathBP \<Rightarrow> nat \<Rightarrow> int" where
  "y_out s curPerceptron =
     sint (weightsTable s ! curPerceptron ! 0 + SR s ! globalPredictorSize s)"

text \<open>
  The loop that rolls a ledger forward, shared in shape by \<open>lookup\<close> (on \<open>SR\<close>, with the
  prediction) and \<open>update\<close> (on \<open>R\<close>, with the outcome):
  \<^verbatim>\<open>for (j = 1; j <= H; j++) { k_j = H - j; S'[k_j + 1] = S[k_j];
       if (dir) S'[k_j + 1] += w[j]; else S'[k_j + 1] -= w[j]; }\<close>
  starting from \<open>S'\<close> all zero.
\<close>

definition roll_step :: "nat \<Rightarrow> u32 list \<Rightarrow> u32 list \<Rightarrow> bool \<Rightarrow> nat \<Rightarrow> u32 list \<Rightarrow> u32 list" where
  "roll_step H S w dir j S' =
     (let k_j = H - j;
          S1 = S'[k_j + 1 := S ! k_j]
      in if dir then S1[k_j + 1 := S1 ! (k_j + 1) + w ! j]
         else S1[k_j + 1 := S1 ! (k_j + 1) - w ! j])"

definition roll :: "nat \<Rightarrow> u32 list \<Rightarrow> u32 list \<Rightarrow> bool \<Rightarrow> u32 list" where
  "roll H S w dir = fold (roll_step H S w dir) [1..<Suc H] (replicate (H + 1) 0)"

text \<open>A history register advances by \<open>h = ((h << 1) | bit) & historyRegisterMask\<close>.\<close>

definition advance :: "u32 \<Rightarrow> bool \<Rightarrow> u32 \<Rightarrow> u32" where
  "advance h b m = (push_bit 1 h OR (if b then 1 else 0)) AND m"

text \<open>
  \<open>lookup\<close> (lines 85 to 121). The model returns the prediction, the record that the
  source hands back through \<open>bp_history\<close>, and the new state.
\<close>

definition lookup :: "ThreadID \<Rightarrow> Addr \<Rightarrow> NeuroPathBP \<Rightarrow> error + (bool \<times> BPHistory \<times> NeuroPathBP)" where
  "lookup tid branch_addr s0 =
     (let s = updatePath branch_addr s0;
          H = globalPredictorSize s
      in if perceptronCount s = 0 then Inl DivisionByZero
         else
           let curPerceptron = unat branch_addr mod perceptronCount s
           in if \<not> (curPerceptron < length (weightsTable s)
                    \<and> H < length (weightsTable s ! curPerceptron)
                    \<and> H < length (SR s) \<and> tid < length (SG s))
              then Inl OutOfBounds
              else if 2 ^ 31 \<le> H + 1 then Inl SignedOverflow
              else
                let prediction = (y_out s curPerceptron \<ge> 0);
                    history = \<lparr> globalHistory = SG s ! tid,
                                globalPredTaken = prediction,
                                globalUsed = None \<rparr>;
                    SR_prime = roll H (SR s) (weightsTable s ! curPerceptron) prediction
                in Inr (prediction, history,
                        s\<lparr> SR := SR_prime[0 := 0],
                           SG := (SG s)[tid := advance (SG s ! tid) prediction
                                                  (historyRegisterMask s)] \<rparr>))"

text \<open>\<open>uncondBranch\<close> (lines 123 to 136).\<close>

definition uncondBranch :: "ThreadID \<Rightarrow> Addr \<Rightarrow> NeuroPathBP \<Rightarrow> error + (BPHistory \<times> NeuroPathBP)" where
  "uncondBranch tid pc s0 =
     (if \<not> tid < length (SG s0) then Inl OutOfBounds
      else
        let history = \<lparr> globalHistory = SG s0 ! tid,
                        globalPredTaken = True,
                        globalUsed = Some True \<rparr>;
            s = updatePath pc s0
        in Inr (history,
                s\<lparr> SG := (SG s)[tid := advance (SG s ! tid) True (historyRegisterMask s)] \<rparr>))"

text \<open>
  One round of the learning loop of \<open>update\<close>:
  \<^verbatim>\<open>k = path[j % path.size()] % perceptronCount;
  weightsTable[k][j] = saturatedUpdate(weightsTable[k][j],
                                       ((thread_history >> j) & 1) == taken);\<close>
  The remainder by \<open>path.size()\<close> is undefined for an empty path, the shift for
  \<open>j \<ge> 32\<close>.
\<close>

definition learn_step :: "NeuroPathBP \<Rightarrow> u32 \<Rightarrow> bool \<Rightarrow> nat \<Rightarrow> error + u32 list list \<Rightarrow> error + u32 list list" where
  "learn_step s thread_history taken j acc =
     (case acc of
        Inl e \<Rightarrow> Inl e
      | Inr wt \<Rightarrow>
          if path s = [] then Inl DivisionByZero
          else
            let k = unat (path s ! (j mod length (path s))) mod perceptronCount s
            in if \<not> (k < length wt \<and> j < length (wt ! k)) then Inl OutOfBounds
               else if 32 \<le> j then Inl UndefinedShift
               else Inr (wt[k := (wt ! k)[j := saturatedUpdate s (wt ! k ! j)
                           ((drop_bit j thread_history AND 1 = 1) = taken)]]))"

definition learn :: "NeuroPathBP \<Rightarrow> nat \<Rightarrow> u32 \<Rightarrow> bool \<Rightarrow> error + u32 list list" where
  "learn s curPerceptron thread_history taken =
     (let wt = weightsTable s;
          wt0 = wt[curPerceptron := (wt ! curPerceptron)[0 :=
                   saturatedUpdate s (wt ! curPerceptron ! 0) taken]]
      in fold (learn_step s thread_history taken) [1..<Suc (globalPredictorSize s)] (Inr wt0))"

text \<open>
  \<open>update\<close> (lines 138 to 188). The record pointer is only asserted to be non-null, so
  it is an option.
  \<open>abs(y_out)\<close> is evaluated only when \<open>squashed\<close> is false, and is undefined for the
  least int.
\<close>

definition update :: "ThreadID \<Rightarrow> Addr \<Rightarrow> bool \<Rightarrow> BPHistory option \<Rightarrow> bool \<Rightarrow> NeuroPathBP \<Rightarrow> error + NeuroPathBP" where
  "update tid branch_addr taken bp_history squashed s =
     (let H = globalPredictorSize s
      in if bp_history = None then Inl AssertionFailed
         else if perceptronCount s = 0 then Inl DivisionByZero
         else
           let curPerceptron = unat branch_addr mod perceptronCount s
           in if \<not> (curPerceptron < length (weightsTable s)
                    \<and> H < length (weightsTable s ! curPerceptron)
                    \<and> H < length (SR s) \<and> H \<le> length (R s)
                    \<and> tid < length (SG s) \<and> tid < length (G s))
              then Inl OutOfBounds
              else if 2 ^ 31 \<le> H + 1 then Inl SignedOverflow
              else
                let y = y_out s curPerceptron;
                    thread_history = SG s ! tid;
                    R_prime = roll H (R s) (weightsTable s ! curPerceptron) taken;
                    s1 = s\<lparr> R := R_prime[0 := 0],
                            G := (G s)[tid := advance (G s ! tid) taken (historyRegisterMask s)] \<rparr>
                in if \<not> squashed \<and> y = - (2 ^ 31) then Inl SignedOverflow
                   else if squashed \<or> \<bar>y\<bar> \<le> theta s then
                     (let s2 = (if squashed then s1\<lparr> SG := (SG s1)[tid := G s1 ! tid], SR := R s1 \<rparr>
                                else s1)
                      in case learn s2 curPerceptron thread_history taken of
                           Inl e \<Rightarrow> Inl e
                         | Inr wt \<Rightarrow> Inr (s2\<lparr> weightsTable := wt \<rparr>))
                   else Inr s1)"

text \<open>\<open>squash\<close> (lines 190 to 204) and \<open>getGHR\<close> (lines 206 to 210).\<close>

definition squash :: "ThreadID \<Rightarrow> BPHistory option \<Rightarrow> NeuroPathBP \<Rightarrow> error + NeuroPathBP" where
  "squash tid bp_history s =
     (if \<not> (tid < length (SG s) \<and> tid < length (G s)) then Inl OutOfBounds
      else Inr (s\<lparr> SG := (SG s)[tid := G s ! tid], SR := R s \<rparr>))"

definition getGHR :: "ThreadID \<Rightarrow> BPHistory \<Rightarrow> u32" where
  "getGHR tid bp_history = globalHistory bp_history"

section \<open>Sequences of calls\<close>

datatype op =
    Lookup ThreadID Addr
  | UncondBranch ThreadID Addr
  | BtbUpdate ThreadID Addr
  | Update ThreadID Addr bool "BPHistory option" bool
  | Squash ThreadID "BPHistory option"

fun step :: "op \<Rightarrow> NeuroPathBP \<Rightarrow> error + NeuroPathBP" where
  "step (Lookup tid a) s = (case lookup tid a s of Inl e \<Rightarrow> Inl e | Inr (p, h, s') \<Rightarrow> Inr s')"
| "step (UncondBranch tid a) s = (case uncondBranch tid a s of Inl e \<Rightarrow> Inl e | Inr (h, s') \<Rightarrow> Inr s')"
| "step (BtbUpdate tid a) s = btbUpdate tid a s"
| "step (Update tid a taken h squashed) s = update tid a taken h squashed s"
| "step (Squash tid h) s = squash tid h s"

fun run :: "op list \<Rightarrow> NeuroPathBP \<Rightarrow> error + NeuroPathBP" where
  "run [] s = Inr s"
| "run (c # cs) s = (case step c s of Inl e \<Rightarrow> Inl e | Inr s' \<Rightarrow> run cs s')"

section \<open>Well-formed engines and a concrete one\<close>

text \<open>
  The shape the constructor establishes and every member function keeps: the vectors
  have the sizes the loops index, and the \<open>int\<close> loop counter can reach \<open>H + 1\<close>.
\<close>

definition wf :: "NeuroPathBP \<Rightarrow> bool" where
  "wf s =
     (0 < perceptronCount s
      \<and> perceptronCount s \<le> length (weightsTable s)
      \<and> list_all (\<lambda>row. length row = globalPredictorSize s + 1) (weightsTable s)
      \<and> length (SR s) = globalPredictorSize s + 1
      \<and> length (R s) = globalPredictorSize s + 1
      \<and> length (G s) = length (SG s)
      \<and> globalPredictorSize s + 1 < 2 ^ 31
      \<and> length (path s) \<le> globalPredictorSize s + 1)"

text \<open>The engine that the constructor builds for \<open>globalPredictorSize = 4\<close> and one thread.\<close>

definition engine4 :: NeuroPathBP where
  "engine4 =
     \<lparr> globalPredictorSize = 4, globalHistoryBits = 2, globalHistoryMask = 3,
       historyRegisterMask = 3, G = [0], SG = [0],
       SR = [0, 0, 0, 0, 0], R = [0, 0, 0, 0, 0],
       perceptronCount = 10, theta = 31,
       weightsTable = replicate 10 [0, 0, 0, 0, 0],
       max_weight = 1, min_weight = - 2, path = [] \<rparr>"

text \<open>The record that the first \<open>lookup\<close> on \<open>engine4\<close> returns.\<close>

definition rec0 :: BPHistory where
  "rec0 = \<lparr> globalHistory = 0, globalPredTaken = True, globalUsed = None \<rparr>"

text \<open>
  \<open>engine4\<close> after one \<open>lookup\<close> on address 7 and three \<open>update\<close> calls that report
  taken for it.
\<close>

definition after3 :: NeuroPathBP where
  "after3 = engine4\<lparr> G := [3], SG := [1],
                weightsTable := (replicate 10 [0, 0, 0, 0, 0])[7 := [1, 0, 0, 0, 0]],
                path := [7] \<rparr>"

text \<open>\<open>engine4\<close> after five \<open>lookup\<close> calls on address 7.\<close>

definition stuck4 :: NeuroPathBP where
  "stuck4 = engine4\<lparr> SG := [3], path := [7, 7, 7, 7, 7] \<rparr>"

text \<open>Calls that speculate (and push onto the path), and the outcomes reported for a thread.\<close>

fun speculative :: "op \<Rightarrow> bool" where
  "speculative (Lookup tid a) = True"
| "speculative (UncondBranch tid a) = True"
| "speculative c = False"

fun unsquashed :: "op \<Rightarrow> bool" where
  "unsquashed (Lookup tid a) = True"
| "unsquashed (UncondBranch tid a) = True"
| "unsquashed (Update tid a taken h squashed) = (\<not> squashed)"
| "unsquashed c = False"

fun outcomes :: "ThreadID \<Rightarrow> op list \<Rightarrow> bool list" where
  "outcomes tid [] = []"
| "outcomes tid (Update tid' a taken h squashed # cs) =
     (if tid' = tid then taken # outcomes tid cs else outcomes tid cs)"
| "outcomes tid (c # cs) = outcomes tid cs"

text \<open>
  The spec's reading of a history register: the outcomes shifted in, oldest first, then
  cut to a width.
\<close>

definition shifted_in :: "bool list \<Rightarrow> u32" where
  "shifted_in bs = fold (\<lambda>b h. push_bit 1 h OR (if b then 1 else 0)) bs 0"

section \<open>Evaluation on the concrete engine\<close>

lemma replicate_4: "replicate 4 x = [x, x, x, x]"
  by (simp add: eval_nat_numeral)

lemma floorLog2_3: "floorLog2 3 = 1"
  by (simp add: floorLog2.simps)

lemma init_engine4: "NeuroPathBP_init 4 1 = Inr engine4"
  by (simp add: NeuroPathBP_init_def engine4_def isPowerOf2_def ceilLog2_def mask_bits_def
      theta_of_def floorLog2_3 Let_def replicate_4)

lemma upt_1_5: "[Suc 0..<5] = [1, 2, 3, 4]"
  by (simp add: upt_rec)

lemma replicate_5: "replicate 5 x = [x, x, x, x, x]"
  by (simp add: eval_nat_numeral)

lemma upt_1_4: "[Suc 0..<4] = [1, 2, 3]"
  by (simp add: upt_rec)

lemma replicate_10: "replicate 10 x = [x, x, x, x, x, x, x, x, x, x]"
  by (simp add: eval_nat_numeral)

lemmas eval4 = lookup_def uncondBranch_def update_def squash_def updatePath_def y_out_def
  Let_def engine4_def roll_def roll_step_def upt_1_5 replicate_5 advance_def
  learn_def learn_step_def saturatedUpdate_def

lemma init_fields:
  assumes "NeuroPathBP_init psize n = Inr s0"
  shows "path s0 = []" and "perceptronCount s0 = 10"
    and "G s0 = replicate n 0" and "SG s0 = replicate n 0"
    and "globalPredictorSize s0 = unat psize"
    and "historyRegisterMask s0 = ucast (mask_bits (ceilLog2 psize))"
    and "0 < ceilLog2 psize" and "ceilLog2 psize < 32"
  using assms
  by (auto simp add: NeuroPathBP_init_def Let_def split: if_splits)

lemma step_speculative_committed:
  assumes "step c s = Inr s'" "speculative c"
  shows "G s' = G s \<and> R s' = R s"
  using assms
  by (cases c)
    (auto simp add: lookup_def uncondBranch_def updatePath_def Let_def split: if_splits sum.splits)

lemma run_speculative_committed:
  assumes "run cs s = Inr s'" "\<forall>c\<in>set cs. speculative c"
  shows "G s' = G s \<and> R s' = R s"
  using assms
proof (induction cs arbitrary: s)
  case Nil
  then show ?case by simp
next
  case (Cons c cs)
  then obtain s1 where s1: "step c s = Inr s1" "run cs s1 = Inr s'"
    by (auto split: sum.splits)
  from Cons.prems(2) have "speculative c" "\<forall>c\<in>set cs. speculative c" by simp_all
  with Cons.IH [OF s1(2)] step_speculative_committed [OF s1(1)] show ?case by simp
qed

section \<open>The ledger roll in closed form\<close>

lemma roll_step_eq:
  assumes "H - j + 1 < length S'"
  shows "roll_step H S w dir j S' =
           S'[H - j + 1 := (if dir then S ! (H - j) + w ! j else S ! (H - j) - w ! j)]"
  using assms by (simp add: roll_step_def Let_def)

lemma roll_prefix:
  assumes "n \<le> H"
  shows "length (fold (roll_step H S w dir) [1..<Suc n] (replicate (H + 1) 0)) = H + 1
         \<and> (\<forall>i\<le>H. fold (roll_step H S w dir) [1..<Suc n] (replicate (H + 1) 0) ! i =
               (if H - n < i
                then (if dir then S ! (i - 1) + w ! (H - i + 1) else S ! (i - 1) - w ! (H - i + 1))
                else 0))"
  using assms
proof (induction n)
  case 0
  then show ?case by (simp add: nth_Cons')
next
  case (Suc n)
  define acc where "acc = fold (roll_step H S w dir) [1..<Suc n] (replicate (H + 1) 0)"
  define v where "v = (if dir then S ! (H - Suc n) + w ! Suc n else S ! (H - Suc n) - w ! Suc n)"
  from Suc have len: "length acc = H + 1"
    and IH: "\<And>i. i \<le> H \<Longrightarrow> acc ! i =
       (if H - n < i
        then (if dir then S ! (i - 1) + w ! (H - i + 1) else S ! (i - 1) - w ! (H - i + 1))
        else 0)"
    unfolding acc_def by simp_all
  from Suc.prems have n: "Suc n \<le> H" .
  have idx: "H - Suc n + 1 = H - n" using n by simp
  have "fold (roll_step H S w dir) [1..<Suc (Suc n)] (replicate (H + 1) 0)
      = roll_step H S w dir (Suc n) acc"
    unfolding acc_def by simp
  also have "\<dots> = acc[H - n := v]"
    using roll_step_eq [of H "Suc n" acc S w dir] len n unfolding idx v_def by simp
  finally have step: "fold (roll_step H S w dir) [1..<Suc (Suc n)] (replicate (H + 1) 0)
      = acc[H - n := v]" .
  have v: "v = (if dir then S ! ((H - n) - 1) + w ! (H - (H - n) + 1)
                else S ! ((H - n) - 1) - w ! (H - (H - n) + 1))"
    using n unfolding v_def by simp
  show ?case
  proof (intro conjI allI impI)
    show "length (fold (roll_step H S w dir) [1..<Suc (Suc n)] (replicate (H + 1) 0)) = H + 1"
      unfolding step using len by simp
  next
    fix i assume i: "i \<le> H"
    show "fold (roll_step H S w dir) [1..<Suc (Suc n)] (replicate (H + 1) 0) ! i =
       (if H - Suc n < i
        then (if dir then S ! (i - 1) + w ! (H - i + 1) else S ! (i - 1) - w ! (H - i + 1))
        else 0)"
    proof (cases "i = H - n")
      case True
      have "H - Suc n < H - n" using n by simp
      moreover have "acc[H - n := v] ! (H - n) = v" using len by simp
      ultimately show ?thesis unfolding step True using v by simp
    next
      case False
      have "acc[H - n := v] ! i = acc ! i" using False by simp
      moreover have "(H - Suc n < i) = (H - n < i)" using False n i by auto
      ultimately show ?thesis unfolding step using IH [OF i] by simp
    qed
  qed
qed

lemma length_roll [simp]: "length (roll H S w dir) = H + 1"
  using roll_prefix [of H H S w dir] by (simp add: roll_def)

lemma roll_nth:
  assumes "i \<le> H"
  shows "roll H S w dir ! i =
           (if 0 < i
            then (if dir then S ! (i - 1) + w ! (H - i + 1) else S ! (i - 1) - w ! (H - i + 1))
            else 0)"
  using roll_prefix [of H H S w dir] assms by (simp add: roll_def)

section \<open>updatePath and lookup\<close>

lemma updatePath_fields [simp]:
  "globalPredictorSize (updatePath a s) = globalPredictorSize s"
  "globalHistoryBits (updatePath a s) = globalHistoryBits s"
  "globalHistoryMask (updatePath a s) = globalHistoryMask s"
  "historyRegisterMask (updatePath a s) = historyRegisterMask s"
  "G (updatePath a s) = G s"
  "SG (updatePath a s) = SG s"
  "SR (updatePath a s) = SR s"
  "R (updatePath a s) = R s"
  "perceptronCount (updatePath a s) = perceptronCount s"
  "theta (updatePath a s) = theta s"
  "weightsTable (updatePath a s) = weightsTable s"
  "max_weight (updatePath a s) = max_weight s"
  "min_weight (updatePath a s) = min_weight s"
  by (simp_all add: updatePath_def Let_def)

lemma updatePath_path:
  "path (updatePath a s) =
     (if length (path s) \<le> globalPredictorSize s then a # path s else butlast (a # path s))"
  by (simp add: updatePath_def Let_def)

lemma updatePath_nonempty:
  "path (updatePath a s) \<noteq> []"
  by (cases "path s") (auto simp add: updatePath_path)

lemma updatePath_length:
  assumes "length (path s) \<le> globalPredictorSize s + 1"
  shows "length (path (updatePath a s)) \<le> globalPredictorSize s + 1"
  using assms by (auto simp add: updatePath_path)

lemma y_out_updatePath [simp]: "y_out (updatePath a s) p = y_out s p"
  by (simp add: y_out_def)

lemma wf_row:
  assumes "wf s" "p < perceptronCount s"
  shows "p < length (weightsTable s)" "length (weightsTable s ! p) = globalPredictorSize s + 1"
  using assms by (auto simp add: wf_def list_all_length)

lemma wf_mod:
  assumes "wf s"
  shows "unat a mod perceptronCount s < perceptronCount s"
  using assms by (simp add: wf_def)

lemma lookup_eq:
  assumes "wf s" "tid < length (SG s)"
  shows "lookup tid a s =
     Inr (0 \<le> y_out s (unat a mod perceptronCount s),
          \<lparr> globalHistory = SG s ! tid,
            globalPredTaken = (0 \<le> y_out s (unat a mod perceptronCount s)),
            globalUsed = None \<rparr>,
          (updatePath a s)
            \<lparr> SR := (roll (globalPredictorSize s) (SR s)
                       (weightsTable s ! (unat a mod perceptronCount s))
                       (0 \<le> y_out s (unat a mod perceptronCount s)))[0 := 0],
              SG := (SG s)[tid := advance (SG s ! tid)
                       (0 \<le> y_out s (unat a mod perceptronCount s)) (historyRegisterMask s)] \<rparr>)"
proof -
  have p: "unat a mod perceptronCount s < perceptronCount s" using assms(1) by (rule wf_mod)
  note row = wf_row [OF assms(1) p]
  have "perceptronCount s \<noteq> 0" "globalPredictorSize s < length (SR s)"
    "\<not> (2 ^ 31 \<le> globalPredictorSize s + 1)"
    using assms(1) by (simp_all add: wf_def)
  then show ?thesis
    using row assms(2) by (simp add: lookup_def Let_def)
qed

lemma wf_engine4: "wf engine4"
  by (simp add: wf_def engine4_def list_all_iff)

lemma wf_lookup:
  assumes "wf s" "lookup tid a s = Inr (b, h, s')"
  shows "wf s'"
proof -
  from assms(2) have tid: "tid < length (SG s)"
    by (auto simp add: lookup_def Let_def split: if_splits)
  from assms(2) lookup_eq [OF assms(1) tid, of a]
  have s': "s' = (updatePath a s)
            \<lparr> SR := (roll (globalPredictorSize s) (SR s)
                       (weightsTable s ! (unat a mod perceptronCount s))
                       (0 \<le> y_out s (unat a mod perceptronCount s)))[0 := 0],
              SG := (SG s)[tid := advance (SG s ! tid)
                       (0 \<le> y_out s (unat a mod perceptronCount s)) (historyRegisterMask s)] \<rparr>"
    by auto
  show ?thesis
    using assms(1) updatePath_length [of s a] unfolding s' by (simp add: wf_def)
qed

lemma lookup_effect:
  assumes "wf s" "tid < length (SG s)"
  shows "\<exists>h s'. lookup tid a s = Inr (0 \<le> y_out s (unat a mod perceptronCount s), h, s')
      \<and> globalHistory h = SG s ! tid
      \<and> globalPredTaken h = (0 \<le> y_out s (unat a mod perceptronCount s))
      \<and> length (SR s') = globalPredictorSize s + 1
      \<and> SR s' ! 0 = 0
      \<and> (\<forall>j. 1 \<le> j \<and> j \<le> globalPredictorSize s \<longrightarrow>
            SR s' ! (globalPredictorSize s - j + 1) =
              (if 0 \<le> y_out s (unat a mod perceptronCount s)
               then SR s ! (globalPredictorSize s - j) + weightsTable s ! (unat a mod perceptronCount s) ! j
               else SR s ! (globalPredictorSize s - j) - weightsTable s ! (unat a mod perceptronCount s) ! j))
      \<and> SG s' = (SG s)[tid := (push_bit 1 (SG s ! tid)
                                 OR (if 0 \<le> y_out s (unat a mod perceptronCount s) then 1 else 0))
                               AND historyRegisterMask s]
      \<and> path s' = (if length (path s) \<le> globalPredictorSize s then a # path s
                    else butlast (a # path s))
      \<and> G s' = G s \<and> R s' = R s \<and> weightsTable s' = weightsTable s
      \<and> globalPredictorSize s' = globalPredictorSize s
      \<and> perceptronCount s' = perceptronCount s
      \<and> historyRegisterMask s' = historyRegisterMask s
      \<and> wf s'"
proof -
  let ?H = "globalPredictorSize s"
  let ?p = "unat a mod perceptronCount s"
  let ?b = "0 \<le> y_out s ?p"
  let ?h = "\<lparr> globalHistory = SG s ! tid, globalPredTaken = ?b, globalUsed = None \<rparr>"
  let ?s' = "(updatePath a s)
            \<lparr> SR := (roll ?H (SR s) (weightsTable s ! ?p) ?b)[0 := 0],
              SG := (SG s)[tid := advance (SG s ! tid) ?b (historyRegisterMask s)] \<rparr>"
  have eq: "lookup tid a s = Inr (?b, ?h, ?s')"
    by (rule lookup_eq [OF assms])
  have wf': "wf ?s'" by (rule wf_lookup [OF assms(1) eq])
  have nth: "\<And>j. 1 \<le> j \<Longrightarrow> j \<le> ?H \<Longrightarrow>
     SR ?s' ! (?H - j + 1) =
       (if ?b then SR s ! (?H - j) + weightsTable s ! ?p ! j
        else SR s ! (?H - j) - weightsTable s ! ?p ! j)"
  proof -
    fix j assume j: "1 \<le> j" "j \<le> ?H"
    have i: "?H - j + 1 \<le> ?H" "0 < ?H - j + 1" "?H - j + 1 - 1 = ?H - j"
      "?H - (?H - j + 1) + 1 = j"
      using j by simp_all
    have "SR ?s' ! (?H - j + 1) = roll ?H (SR s) (weightsTable s ! ?p) ?b ! (?H - j + 1)"
      by simp
    also have "\<dots> = (if ?b then SR s ! (?H - j) + weightsTable s ! ?p ! j
        else SR s ! (?H - j) - weightsTable s ! ?p ! j)"
      using roll_nth [OF i(1), of "SR s" "weightsTable s ! ?p" ?b] i(2-) by simp
    finally show "SR ?s' ! (?H - j + 1) =
       (if ?b then SR s ! (?H - j) + weightsTable s ! ?p ! j
        else SR s ! (?H - j) - weightsTable s ! ?p ! j)" .
  qed
  have "globalHistory ?h = SG s ! tid" "globalPredTaken ?h = ?b"
    "length (SR ?s') = ?H + 1" "SR ?s' ! 0 = 0"
    "SG ?s' = (SG s)[tid := (push_bit 1 (SG s ! tid) OR (if ?b then 1 else 0))
                               AND historyRegisterMask s]"
    "path ?s' = (if length (path s) \<le> ?H then a # path s else butlast (a # path s))"
    "G ?s' = G s" "R ?s' = R s" "weightsTable ?s' = weightsTable s"
    "globalPredictorSize ?s' = ?H" "perceptronCount ?s' = perceptronCount s"
    "historyRegisterMask ?s' = historyRegisterMask s"
    by (simp_all add: advance_def updatePath_path)
  with eq wf' nth show ?thesis by blast
qed

section \<open>What uncondBranch and update leave alone\<close>

lemma uncondBranch_eq:
  assumes "tid < length (SG s)"
  shows "uncondBranch tid a s =
     Inr (\<lparr> globalHistory = SG s ! tid, globalPredTaken = True, globalUsed = Some True \<rparr>,
          (updatePath a s)\<lparr> SG := (SG s)[tid := advance (SG s ! tid) True (historyRegisterMask s)] \<rparr>)"
  using assms by (simp add: uncondBranch_def Let_def)

lemma update_frame:
  assumes "update tid a taken h sq s = Inr s'"
  shows "G s' = (G s)[tid := advance (G s ! tid) taken (historyRegisterMask s)]"
    and "R s' = (roll (globalPredictorSize s) (R s)
                   (weightsTable s ! (unat a mod perceptronCount s)) taken)[0 := 0]"
    and "path s' = path s"
    and "globalPredictorSize s' = globalPredictorSize s"
    and "historyRegisterMask s' = historyRegisterMask s"
    and "perceptronCount s' = perceptronCount s"
    and "theta s' = theta s"
    and "max_weight s' = max_weight s"
    and "min_weight s' = min_weight s"
    and "length (SG s') = length (SG s)"
    and "tid < length (G s)"
  using assms
  by (auto simp add: update_def Let_def split: if_splits sum.splits)

lemma update_speculative_state:
  assumes "update tid a taken h sq s = Inr s'"
  shows "SG s' = (if sq then (SG s)[tid := G s' ! tid] else SG s)"
    and "SR s' = (if sq then R s' else SR s)"
  using assms
  by (auto simp add: update_def Let_def split: if_splits sum.splits)

section \<open>Invariants of a sequence of calls\<close>

lemma squash_eq:
  assumes "tid < length (SG s)" "tid < length (G s)"
  shows "squash tid h s = Inr (s\<lparr> SG := (SG s)[tid := G s ! tid], SR := R s \<rparr>)"
  using assms by (simp add: squash_def)

lemma step_static:
  assumes "step c s = Inr s'"
  shows "globalPredictorSize s' = globalPredictorSize s"
    and "historyRegisterMask s' = historyRegisterMask s"
    and "perceptronCount s' = perceptronCount s"
    and "length (SG s') = length (SG s)"
    and "length (G s') = length (G s)"
proof -
  have "globalPredictorSize s' = globalPredictorSize s
      \<and> historyRegisterMask s' = historyRegisterMask s
      \<and> perceptronCount s' = perceptronCount s
      \<and> length (SG s') = length (SG s)
      \<and> length (G s') = length (G s)"
  proof (cases c)
    case (Lookup tid a)
    with assms show ?thesis
      by (auto simp add: lookup_def Let_def split: if_splits sum.splits)
  next
    case (UncondBranch tid a)
    with assms show ?thesis
      by (auto simp add: uncondBranch_def Let_def split: if_splits sum.splits)
  next
    case (BtbUpdate tid a)
    with assms show ?thesis
      by (auto simp add: btbUpdate_def split: if_splits)
  next
    case (Update tid a taken h sq)
    with assms have u: "update tid a taken h sq s = Inr s'" by simp
    show ?thesis using update_frame [OF u] by simp
  next
    case (Squash tid h)
    with assms show ?thesis
      by (auto simp add: squash_def split: if_splits)
  qed
  then show "globalPredictorSize s' = globalPredictorSize s"
    and "historyRegisterMask s' = historyRegisterMask s"
    and "perceptronCount s' = perceptronCount s"
    and "length (SG s') = length (SG s)"
    and "length (G s') = length (G s)"
    by simp_all
qed

lemma step_path:
  assumes "step c s = Inr s'"
  shows "path s' = (case c of Lookup tid a \<Rightarrow> path (updatePath a s)
                    | UncondBranch tid a \<Rightarrow> path (updatePath a s)
                    | _ \<Rightarrow> path s)"
proof (cases c)
  case (Lookup tid a)
  with assms show ?thesis
    by (auto simp add: lookup_def Let_def split: if_splits sum.splits)
next
  case (UncondBranch tid a)
  with assms show ?thesis
    by (auto simp add: uncondBranch_def Let_def split: if_splits sum.splits)
next
  case (BtbUpdate tid a)
  with assms show ?thesis
    by (auto simp add: btbUpdate_def split: if_splits)
next
  case (Update tid a taken h sq)
  with assms have u: "update tid a taken h sq s = Inr s'" by simp
  show ?thesis using update_frame(3) [OF u] Update by simp
next
  case (Squash tid h)
  with assms show ?thesis
    by (auto simp add: squash_def split: if_splits)
qed

lemma step_path_bound:
  assumes "step c s = Inr s'" "length (path s) \<le> globalPredictorSize s + 1"
  shows "length (path s') \<le> globalPredictorSize s' + 1"
  using step_path [OF assms(1)] step_static(1) [OF assms(1)] assms(2) updatePath_length [OF assms(2)]
  by (cases c) simp_all

lemma step_path_nonempty:
  assumes "step c s = Inr s'" "speculative c \<or> path s \<noteq> []"
  shows "path s' \<noteq> []"
  using step_path [OF assms(1)] assms(2) updatePath_nonempty
  by (cases c) simp_all

lemma run_static:
  assumes "run cs s = Inr s'"
  shows "globalPredictorSize s' = globalPredictorSize s
      \<and> historyRegisterMask s' = historyRegisterMask s
      \<and> perceptronCount s' = perceptronCount s
      \<and> length (SG s') = length (SG s)
      \<and> length (G s') = length (G s)"
  using assms
proof (induction cs arbitrary: s)
  case Nil
  then show ?case by simp
next
  case (Cons c cs)
  then obtain s1 where s1: "step c s = Inr s1" "run cs s1 = Inr s'"
    by (auto split: sum.splits)
  from Cons.IH [OF s1(2)] step_static [OF s1(1)] show ?case by simp
qed

lemma run_path:
  assumes "run cs s = Inr s'" "length (path s) \<le> globalPredictorSize s + 1"
  shows "length (path s') \<le> globalPredictorSize s' + 1
       \<and> ((\<exists>c\<in>set cs. speculative c) \<or> path s \<noteq> [] \<longrightarrow> path s' \<noteq> [])"
  using assms
proof (induction cs arbitrary: s)
  case Nil
  then show ?case by simp
next
  case (Cons c cs)
  then obtain s1 where s1: "step c s = Inr s1" "run cs s1 = Inr s'"
    by (auto split: sum.splits)
  have b1: "length (path s1) \<le> globalPredictorSize s1 + 1"
    by (rule step_path_bound [OF s1(1) Cons.prems(2)])
  from Cons.IH [OF s1(2) b1] have IH: "length (path s') \<le> globalPredictorSize s' + 1"
    "(\<exists>c\<in>set cs. speculative c) \<or> path s1 \<noteq> [] \<Longrightarrow> path s' \<noteq> []"
    by blast+
  have "path s' \<noteq> []" if "(\<exists>c\<in>set (c # cs). speculative c) \<or> path s \<noteq> []"
  proof (cases "\<exists>c\<in>set cs. speculative c")
    case True
    then show ?thesis using IH(2) by blast
  next
    case False
    with that have "speculative c \<or> path s \<noteq> []" by auto
    then have "path s1 \<noteq> []" by (rule step_path_nonempty [OF s1(1)])
    then show ?thesis using IH(2) by blast
  qed
  with IH(1) show ?case by blast
qed

lemma learn_step_no_div:
  assumes "path s \<noteq> []" "acc \<noteq> Inl DivisionByZero"
  shows "learn_step s th taken j acc \<noteq> Inl DivisionByZero"
  using assms by (auto simp add: learn_step_def Let_def split: sum.splits)

lemma fold_learn_no_div:
  assumes "path s \<noteq> []" "acc \<noteq> Inl DivisionByZero"
  shows "fold (learn_step s th taken) js acc \<noteq> Inl DivisionByZero"
  using assms(2)
proof (induction js arbitrary: acc)
  case Nil
  then show ?case by simp
next
  case (Cons j js)
  have "learn_step s th taken j acc \<noteq> Inl DivisionByZero"
    by (rule learn_step_no_div [OF assms(1) Cons.prems])
  from Cons.IH [OF this] show ?case by simp
qed

lemma learn_no_div:
  assumes "path s \<noteq> []"
  shows "learn s p th taken \<noteq> Inl DivisionByZero"
  unfolding learn_def Let_def by (rule fold_learn_no_div [OF assms]) simp

lemma update_no_div:
  assumes "path s \<noteq> []" "perceptronCount s \<noteq> 0"
  shows "update tid a taken h sq s \<noteq> Inl DivisionByZero"
proof -
  have l: "\<And>s2 p th. path s2 = path s \<Longrightarrow> learn s2 p th taken \<noteq> Inl DivisionByZero"
    using learn_no_div assms(1) by metis
  show ?thesis
    using assms(2) l
    by (auto simp add: update_def Let_def split: if_splits sum.splits)
qed

section \<open>Every reachable engine is well-formed\<close>

text \<open>
  The constructor builds a well-formed engine with nothing speculated (for sizes whose
  loops the \<open>int\<close> counter can run), and every call that returns keeps the engine
  well-formed. So the theorems below that ask for a well-formed engine hold in every
  state a constructed engine can reach.
\<close>

lemma init_wf:
  assumes "NeuroPathBP_init psize n = Inr s0" "unat psize + 1 < 2 ^ 31"
  shows "wf s0" and "SR s0 = R s0" and "SG s0 = G s0"
  using assms
  by (auto simp add: NeuroPathBP_init_def Let_def wf_def list_all_iff split: if_splits)

lemma learn_step_shape:
  assumes "learn_step s th taken j acc = Inr wt'"
  shows "\<exists>wt. acc = Inr wt \<and> map length wt' = map length wt"
  using assms
  by (cases acc)
    (auto simp add: learn_step_def Let_def map_update list_update_same_conv split: if_splits)

lemma fold_learn_shape:
  assumes "fold (learn_step s th taken) js acc = Inr wt'"
  shows "\<exists>wt. acc = Inr wt \<and> map length wt' = map length wt"
  using assms
proof (induction js arbitrary: acc)
  case Nil
  then show ?case by simp
next
  case (Cons j js)
  from Cons.prems have "fold (learn_step s th taken) js (learn_step s th taken j acc) = Inr wt'"
    by simp
  from Cons.IH [OF this] obtain wt1 where
    1: "learn_step s th taken j acc = Inr wt1" "map length wt' = map length wt1" by blast
  from learn_step_shape [OF 1(1)] 1(2) show ?case by auto
qed

lemma learn_shape:
  assumes "learn s p th taken = Inr wt'" "p < length (weightsTable s)"
  shows "map length wt' = map length (weightsTable s)"
proof -
  from assms(1) fold_learn_shape obtain wt where
    "Inr ((weightsTable s)[p := (weightsTable s ! p)[0 :=
        saturatedUpdate s (weightsTable s ! p ! 0) taken]]) = (Inr wt :: error + u32 list list)"
    "map length wt' = map length wt"
    unfolding learn_def Let_def by blast
  then show ?thesis using assms(2) by (auto simp add: map_update list_update_same_conv)
qed

lemma wf_shape:
  assumes "wf s" "map length wt' = map length (weightsTable s)"
  shows "wf (s\<lparr> weightsTable := wt' \<rparr>)"
proof -
  have l: "length wt' = length (weightsTable s)" using assms(2) by (rule map_eq_imp_length_eq)
  have "list_all (\<lambda>row. length row = globalPredictorSize s + 1) wt'
      = list_all (\<lambda>n. n = globalPredictorSize s + 1) (map length wt')"
    by (simp add: list_all_iff)
  also have "\<dots> = list_all (\<lambda>row. length row = globalPredictorSize s + 1) (weightsTable s)"
    unfolding assms(2) by (simp add: list_all_iff)
  finally show ?thesis using assms(1) l by (simp add: wf_def)
qed

lemma update_weights:
  assumes "update tid a taken h sq s = Inr s'"
  shows "weightsTable s' = weightsTable s
       \<or> (\<exists>s2. learn s2 (unat a mod perceptronCount s) (SG s ! tid) taken = Inr (weightsTable s')
                \<and> weightsTable s2 = weightsTable s)"
  using assms
  by (auto simp add: update_def Let_def split: if_splits sum.splits)

lemma wf_update:
  assumes "wf s" "update tid a taken h sq s = Inr s'"
  shows "wf s'"
proof -
  let ?p = "unat a mod perceptronCount s"
  note f = update_frame [OF assms(2)] update_speculative_state [OF assms(2)]
  have p: "?p < length (weightsTable s)" using wf_row(1) [OF assms(1) wf_mod [OF assms(1)]] .
  have m: "map length (weightsTable s') = map length (weightsTable s)"
    using update_weights [OF assms(2)]
  proof
    assume "weightsTable s' = weightsTable s"
    then show ?thesis by simp
  next
    assume "\<exists>s2. learn s2 ?p (SG s ! tid) taken = Inr (weightsTable s')
                \<and> weightsTable s2 = weightsTable s"
    then obtain s2 where s2: "learn s2 ?p (SG s ! tid) taken = Inr (weightsTable s')"
      "weightsTable s2 = weightsTable s" by blast
    from learn_shape [OF s2(1)] p s2(2) show ?thesis by simp
  qed
  have r: "length (R s') = globalPredictorSize s + 1" unfolding f(2) by simp
  have sr: "length (SR s') = globalPredictorSize s + 1"
    unfolding f(13) using r assms(1) by (simp add: wf_def)
  have g: "length (G s') = length (G s)" unfolding f(1) by simp
  have "wf (s\<lparr> weightsTable := weightsTable s' \<rparr>)" by (rule wf_shape [OF assms(1) m])
  then show ?thesis
    using r sr g f(3,4,6,10) by (simp add: wf_def)
qed

lemma wf_step:
  assumes "wf s" "step c s = Inr s'"
  shows "wf s'"
proof (cases c)
  case (Lookup tid a)
  with assms(2) obtain b h where "lookup tid a s = Inr (b, h, s')"
    by (auto split: sum.splits)
  then show ?thesis by (rule wf_lookup [OF assms(1)])
next
  case (UncondBranch tid a)
  with assms show ?thesis
    using updatePath_length [of s a]
    by (auto simp add: uncondBranch_def Let_def wf_def split: if_splits sum.splits)
next
  case (BtbUpdate tid a)
  with assms show ?thesis
    by (auto simp add: btbUpdate_def wf_def split: if_splits)
next
  case (Update tid a taken h sq)
  with assms(2) have "update tid a taken h sq s = Inr s'" by simp
  then show ?thesis by (rule wf_update [OF assms(1)])
next
  case (Squash tid h)
  with assms show ?thesis
    by (auto simp add: squash_def wf_def split: if_splits)
qed

lemma wf_run:
  assumes "wf s" "run cs s = Inr s'"
  shows "wf s'"
  using assms
proof (induction cs arbitrary: s)
  case Nil
  then show ?case by simp
next
  case (Cons c cs)
  then obtain s1 where s1: "step c s = Inr s1" "run cs s1 = Inr s'"
    by (auto split: sum.splits)
  from Cons.IH [OF wf_step [OF Cons.prems(1) s1(1)] s1(2)] show ?case .
qed

section \<open>The end-to-end scenario\<close>

text \<open>
  C1. The scenario of the claim, run on the code: \<open>H = 4\<close>, ten perceptrons, all weights
  zero. The first \<open>lookup\<close> (here on address 4096, perceptron 6) predicts taken. The
  \<open>update\<close> that follows with outcome not taken and \<open>squashed = false\<close> does run the
  learning step (the position weights of perceptron 6 become 1), but the bias weight
  of perceptron 6 stays 0: the decrement is the one that \<open>saturatedUpdate\<close> skips. All
  other perceptrons keep zero weights.
\<close>

theorem first_update_leaves_bias:
  "NeuroPathBP_init 4 1 = Inr engine4
   \<and> lookup 0 4096 engine4 = Inr (True, rec0, engine4\<lparr> SG := [1], path := [4096] \<rparr>)
   \<and> update 0 4096 False (Some rec0) False (engine4\<lparr> SG := [1], path := [4096] \<rparr>)
       = Inr (engine4\<lparr> SG := [1],
                weightsTable := (replicate 10 [0, 0, 0, 0, 0])[6 := [0, 1, 1, 1, 1]],
                path := [4096] \<rparr>)"
proof (intro conjI)
  show "NeuroPathBP_init 4 1 = Inr engine4" by (rule init_engine4)
  show "lookup 0 4096 engine4 = Inr (True, rec0, engine4\<lparr> SG := [1], path := [4096] \<rparr>)"
    by (simp add: eval4 rec0_def)
  show "update 0 4096 False (Some rec0) False (engine4\<lparr> SG := [1], path := [4096] \<rparr>)
       = Inr (engine4\<lparr> SG := [1],
                weightsTable := (replicate 10 [0, 0, 0, 0, 0])[6 := [0, 1, 1, 1, 1]],
                path := [4096] \<rparr>)"
    by (simp add: eval4 upt_1_4 replicate_10)
qed

section \<open>Saturating weights\<close>

text \<open>
  C2. \<open>saturatedUpdate\<close> evaluated on the engine for \<open>H = 4\<close>, whose bounds are
  \<open>maxWeight = 1\<close> and \<open>minWeight = -2\<close> (\<open>B = 2\<close> history bits). The claim asks for
  \<open>max (w - 1) minWeight\<close> on a decrement and \<open>min (w + 1) maxWeight\<close> on an increment. The
  code compares the unsigned weight with the bound converted to unsigned, where \<open>-2\<close>
  is \<open>4294967294\<close>: a decrement of \<open>0\<close> or \<open>1\<close> returns the weight unchanged instead of
  \<open>-1\<close> or \<open>0\<close>, and an increment of \<open>-1\<close> (the word \<open>4294967295\<close>) returns \<open>-1\<close> instead of
  \<open>0\<close>.
\<close>

theorem saturatedUpdate_skips_decrement:
  "max_weight engine4 = 1 \<and> min_weight engine4 = - 2
   \<and> saturatedUpdate engine4 0 False = 0
   \<and> saturatedUpdate engine4 1 False = 1
   \<and> saturatedUpdate engine4 (- 1) True = - 1"
  by (simp add: saturatedUpdate_def engine4_def)

text \<open>
  With bounds of a wider signed type the function does not saturate either: the
  decrement of \<open>minWeight = -2\<close> gives \<open>-3\<close>, and the increment of \<open>-1\<close> still returns \<open>-1\<close>.
\<close>

lemma saturatedUpdate_wide_does_not_saturate:
  "sint (4294967294 :: u32) = - 2 \<and> sint (4294967293 :: u32) = - 3 \<and> sint (4294967295 :: u32) = - 1
   \<and> saturatedUpdate_wide engine4 4294967294 False = 4294967293
   \<and> saturatedUpdate_wide engine4 4294967295 True = 4294967295"
  by (simp add: saturatedUpdate_wide_def engine4_def)

section \<open>The committed history register\<close>

lemma mask_bits_eq:
  assumes "k < 32"
  shows "(ucast (mask_bits k) :: u32) = mask k"
proof -
  have "mask_bits k = (mask k :: 64 word)"
    using assms by (simp add: mask_bits_def mask_eq_exp_minus_1)
  moreover have "(ucast (mask k :: 64 word) :: u32) = mask k"
    using assms by (intro bit_word_eqI) (auto simp add: bit_simps)
  ultimately show ?thesis by simp
qed

lemma take_bit_push_bit_or:
  "take_bit k (push_bit m (take_bit k g) OR c) = take_bit k (push_bit m g OR (c :: u32))"
  by (intro bit_word_eqI) (auto simp add: bit_simps)

lemma advance_mask:
  "advance (take_bit k g) b (mask k) = take_bit k (push_bit 1 g OR (if b then 1 else 0))"
  unfolding advance_def take_bit_eq_mask [symmetric] by (rule take_bit_push_bit_or)

lemma fold_advance_mask:
  "fold (\<lambda>b g. advance g b (mask k)) bs (take_bit k g)
     = take_bit k (fold (\<lambda>b h. push_bit 1 h OR (if b then 1 else 0)) bs g)"
proof (induction bs arbitrary: g)
  case Nil
  then show ?case by simp
next
  case (Cons b bs)
  show ?case using Cons.IH [of "push_bit 1 g OR (if b then 1 else 0)"]
    by (simp add: advance_mask)
qed

lemma step_committed_history:
  assumes "step c s = Inr s'" "unsquashed c"
  shows "G s' ! tid = fold (\<lambda>b g. advance g b (historyRegisterMask s)) (outcomes tid [c]) (G s ! tid)"
proof (cases c)
  case (Lookup t a)
  with assms(1) show ?thesis
    by (auto simp add: lookup_def Let_def split: if_splits sum.splits)
next
  case (UncondBranch t a)
  with assms(1) show ?thesis
    by (auto simp add: uncondBranch_def Let_def split: if_splits sum.splits)
next
  case (BtbUpdate t a)
  with assms(2) show ?thesis by simp
next
  case (Update t a taken h sq)
  with assms(1) have u: "update t a taken h sq s = Inr s'" by simp
  from update_frame(1,11) [OF u] Update show ?thesis by (simp add: nth_list_update)
next
  case (Squash t h)
  with assms(2) show ?thesis by simp
qed

lemma outcomes_Cons: "outcomes tid (c # cs) = outcomes tid [c] @ outcomes tid cs"
  by (cases c) simp_all

lemma run_committed_history:
  assumes "run cs s = Inr s'" "\<forall>c\<in>set cs. unsquashed c"
  shows "G s' ! tid = fold (\<lambda>b g. advance g b (historyRegisterMask s)) (outcomes tid cs) (G s ! tid)"
  using assms
proof (induction cs arbitrary: s)
  case Nil
  then show ?case by simp
next
  case (Cons c cs)
  then obtain s1 where s1: "step c s = Inr s1" "run cs s1 = Inr s'"
    by (auto split: sum.splits)
  from Cons.prems(2) have u: "unsquashed c" "\<forall>c\<in>set cs. unsquashed c" by simp_all
  have m: "historyRegisterMask s1 = historyRegisterMask s" by (rule step_static(2) [OF s1(1)])
  show ?case
    unfolding outcomes_Cons [of tid c cs] fold_append comp_def
    using Cons.IH [OF s1(2) u(2)] step_committed_history [OF s1(1) u(1), of tid] m by simp
qed

lemma run3:
  "run [Lookup 0 7, Update 0 7 True (Some rec0) False, Update 0 7 True (Some rec0) False,
        Update 0 7 True (Some rec0) False] engine4 = Inr after3"
  by (simp add: eval4 upt_1_4 replicate_10 after3_def)

text \<open>
  C3. The claim: after the \<open>update\<close> calls of a thread, none squashed, the committed
  history register holds the reported outcomes, shifted in oldest first and cut to \<open>H\<close>
  bits. Run on the code for \<open>H = 4\<close>: after one \<open>lookup\<close> and three \<open>update\<close> calls with
  \<open>squashed = false\<close> that report taken, the outcomes shifted in and cut to 4 bits are
  \<open>7\<close>, but the register holds \<open>3\<close>. \<open>update\<close> masks with \<open>historyRegisterMask\<close>, which the
  constructor sets to \<open>mask(ceilLog2(4)) = 3\<close>: the register is two bits wide, while the
  learning loop of \<open>update\<close> reads its bits \<open>1\<close> to \<open>H\<close>.
\<close>

theorem committed_history_not_H_bits:
  "NeuroPathBP_init 4 1 = Inr engine4
   \<and> run [Lookup 0 7, Update 0 7 True (Some rec0) False, Update 0 7 True (Some rec0) False,
          Update 0 7 True (Some rec0) False] engine4 = Inr after3
   \<and> outcomes 0 [Lookup 0 7, Update 0 7 True (Some rec0) False, Update 0 7 True (Some rec0) False,
          Update 0 7 True (Some rec0) False] = [True, True, True]
   \<and> globalPredictorSize after3 = 4
   \<and> historyRegisterMask after3 = 3
   \<and> take_bit 4 (shifted_in [True, True, True]) = 7
   \<and> G after3 ! 0 = 3
   \<and> G after3 ! 0 \<noteq> take_bit (globalPredictorSize after3) (shifted_in [True, True, True])"
  using init_engine4 run3
  by (simp add: after3_def engine4_def shifted_in_def)

text \<open>
  What the register does hold, in every run of a constructed engine that returns and
  consists of \<open>lookup\<close>, \<open>uncondBranch\<close> and unsquashed \<open>update\<close> calls: the outcomes
  reported for the thread, shifted in oldest first and masked with
  \<open>historyRegisterMask = 2^ceilLog2(H) - 1\<close>. This says something about \<open>update\<close> only
  where \<open>update\<close> returns: for \<open>H \<ge> 32\<close> the learning loop shifts the register by 32 or
  more, which is undefined, so an \<open>update\<close> that learns returns no state there.
\<close>

lemma committed_history_of_returned_run:
  assumes "NeuroPathBP_init psize n = Inr s0"
    and "run cs s0 = Inr s"
    and "\<forall>c\<in>set cs. unsquashed c"
    and "tid < n"
  shows "G s ! tid = take_bit (ceilLog2 psize) (shifted_in (outcomes tid cs))
       \<and> G s ! tid = shifted_in (outcomes tid cs) AND historyRegisterMask s
       \<and> historyRegisterMask s = mask (ceilLog2 psize)"
proof -
  have m0: "historyRegisterMask s0 = mask (ceilLog2 psize)"
    using init_fields(6,8) [OF assms(1)] by (simp add: mask_bits_eq)
  have m: "historyRegisterMask s = mask (ceilLog2 psize)"
    using run_static [OF assms(2)] m0 by simp
  have g0: "G s0 ! tid = take_bit (ceilLog2 psize) 0"
    using init_fields(3) [OF assms(1)] assms(4) by simp
  have "G s ! tid = take_bit (ceilLog2 psize) (shifted_in (outcomes tid cs))"
    unfolding run_committed_history [OF assms(2,3), of tid] m0 g0 fold_advance_mask shifted_in_def ..
  then show ?thesis using m by (simp add: take_bit_eq_mask)
qed

section \<open>squash\<close>

text \<open>
  C4. After any sequence of calls, and in particular after any number of speculative
  \<open>lookup\<close> and \<open>uncondBranch\<close> calls, \<open>squash(tid, record)\<close> succeeds for a thread that
  has a history slot, and right after it the speculative history of the thread equals
  its committed history and the speculative ledger equals the committed ledger. When
  the calls before it were all speculative, the committed history and ledger are still
  those of the start.
\<close>

theorem squash_restores_exactly:
  assumes "run cs s0 = Inr s"
    and "tid < length (SG s0)" and "tid < length (G s0)"
  shows "\<exists>s'. squash tid h s = Inr s'
       \<and> SG s' ! tid = G s' ! tid
       \<and> SR s' = R s'
       \<and> ((\<forall>c\<in>set cs. speculative c) \<longrightarrow> G s' = G s0 \<and> R s' = R s0)"
proof -
  from run_static [OF assms(1)] assms(2,3)
  have t: "tid < length (SG s)" "tid < length (G s)" by simp_all
  let ?s' = "s\<lparr> SG := (SG s)[tid := G s ! tid], SR := R s \<rparr>"
  have "squash tid h s = Inr ?s'" by (rule squash_eq [OF t])
  moreover have "SG ?s' ! tid = G ?s' ! tid" using t by simp
  moreover have "SR ?s' = R ?s'" by simp
  moreover have "G ?s' = G s0 \<and> R ?s' = R s0" if "\<forall>c\<in>set cs. speculative c"
    using run_speculative_committed [OF assms(1) that] by simp
  ultimately show ?thesis by blast
qed

theorem squash_restores_exactly_witness:
  "run [Lookup 0 7, UncondBranch 0 8, Lookup 0 9] engine4
     = Inr (engine4\<lparr> SG := [3], path := [9, 8, 7] \<rparr>)
   \<and> 0 < length (SG engine4) \<and> 0 < length (G engine4)
   \<and> squash 0 None (engine4\<lparr> SG := [3], path := [9, 8, 7] \<rparr>)
       = Inr (engine4\<lparr> path := [9, 8, 7] \<rparr>)"
proof -
  have r: "run [Lookup 0 7, UncondBranch 0 8, Lookup 0 9] engine4
     = Inr (engine4\<lparr> SG := [3], path := [9, 8, 7] \<rparr>)"
    by (simp add: eval4)
  have l: "0 < length (SG engine4)" "0 < length (G engine4)" by (simp_all add: engine4_def)
  from squash_restores_exactly [OF r l, of None] obtain s' where
    "squash 0 None (engine4\<lparr> SG := [3], path := [9, 8, 7] \<rparr>) = Inr s'" by blast
  then show ?thesis using r l by (auto simp add: eval4)
qed

section \<open>lookup: one speculative commitment per call\<close>

lemma butlast_fixed:
  assumes "ys = butlast (a # ys)"
  shows "ys = replicate (length ys) a"
  using assms
proof (induction ys)
  case Nil
  then show ?case by simp
next
  case (Cons y zs)
  have "butlast (a # y # zs) = a # butlast (y # zs)" by simp
  with Cons.prems have "y # zs = a # butlast (y # zs)" by (simp only:)
  then have "y = a \<and> zs = butlast (y # zs)" by (rule list.inject [THEN iffD1])
  then have ya: "y = a" and zs: "zs = butlast (y # zs)" by blast+
  from zs have "zs = butlast (a # zs)" unfolding ya .
  with Cons.IH ya show ?case by simp
qed

text \<open>
  C5, as stated, fails in its last part, "no lookup call is idempotent". After five
  \<open>lookup\<close> calls on address 7 the engine for \<open>H = 4\<close> has a path of five copies of the
  address, a history register saturated at the mask and (the weights being zero) a
  zero ledger. A further \<open>lookup\<close> on address 7 returns the same prediction and leaves
  exactly this state: repeating the call changes nothing.
\<close>

theorem lookup_can_be_absorbed:
  "run [Lookup 0 7, Lookup 0 7, Lookup 0 7, Lookup 0 7, Lookup 0 7] engine4 = Inr stuck4
   \<and> lookup 0 7 stuck4
       = Inr (True, \<lparr> globalHistory = 3, globalPredTaken = True, globalUsed = None \<rparr>, stuck4)"
  by (simp add: eval4 stuck4_def)

text \<open>
  C5, amended. In a well-formed engine, for a thread that has a history slot,
  \<open>lookup(tid, a)\<close> selects the perceptron \<open>p = a mod P\<close>, computes
  \<open>y = weights[p][0] + SR[H]\<close> (the unsigned sum read as an int) and returns the
  prediction \<open>y \<ge> 0\<close>. The record it returns holds the speculative history as it was
  before the call, and the prediction. The call rolls the speculative ledger once,
  \<open>SR'[0] = 0\<close> and \<open>SR'[H - j + 1] = SR[H - j] + weights[p][j]\<close> for a prediction of
  taken, \<open>SR[H - j] - weights[p][j]\<close> otherwise, for every \<open>j\<close> from \<open>1\<close> to \<open>H\<close>; it
  advances the speculative history once (shift the prediction in, then mask); it
  pushes the address onto the path; the committed history, the committed ledger and
  the weights stay as they are. No call is absorbed: a second call for the same thread
  and address is a commitment of its own, whose record holds the history the first
  call left and which rolls, advances and pushes again from the state the first call
  left. The second call can leave the engine as it found it only when the path already
  holds \<open>H + 1\<close> copies of the address.
\<close>

theorem lookup_commits_once:
  assumes "wf s" "tid < length (SG s)"
  shows "\<exists>h s'. lookup tid a s = Inr (0 \<le> y_out s (unat a mod perceptronCount s), h, s')
      \<and> globalHistory h = SG s ! tid
      \<and> globalPredTaken h = (0 \<le> y_out s (unat a mod perceptronCount s))
      \<and> length (SR s') = globalPredictorSize s + 1
      \<and> SR s' ! 0 = 0
      \<and> (\<forall>j. 1 \<le> j \<and> j \<le> globalPredictorSize s \<longrightarrow>
            SR s' ! (globalPredictorSize s - j + 1) =
              (if 0 \<le> y_out s (unat a mod perceptronCount s)
               then SR s ! (globalPredictorSize s - j) + weightsTable s ! (unat a mod perceptronCount s) ! j
               else SR s ! (globalPredictorSize s - j) - weightsTable s ! (unat a mod perceptronCount s) ! j))
      \<and> SG s' = (SG s)[tid := (push_bit 1 (SG s ! tid)
                                 OR (if 0 \<le> y_out s (unat a mod perceptronCount s) then 1 else 0))
                               AND historyRegisterMask s]
      \<and> path s' = (if length (path s) \<le> globalPredictorSize s then a # path s
                    else butlast (a # path s))
      \<and> G s' = G s \<and> R s' = R s \<and> weightsTable s' = weightsTable s
      \<and> globalPredictorSize s' = globalPredictorSize s
      \<and> (\<exists>h2 s2. lookup tid a s' = Inr (0 \<le> y_out s' (unat a mod perceptronCount s), h2, s2)
            \<and> globalHistory h2 = SG s' ! tid
            \<and> SR s2 ! 0 = 0
            \<and> (\<forall>j. 1 \<le> j \<and> j \<le> globalPredictorSize s \<longrightarrow>
                  SR s2 ! (globalPredictorSize s - j + 1) =
                    (if 0 \<le> y_out s' (unat a mod perceptronCount s)
                     then SR s' ! (globalPredictorSize s - j) + weightsTable s ! (unat a mod perceptronCount s) ! j
                     else SR s' ! (globalPredictorSize s - j) - weightsTable s ! (unat a mod perceptronCount s) ! j))
            \<and> SG s2 = (SG s')[tid := (push_bit 1 (SG s' ! tid)
                                 OR (if 0 \<le> y_out s' (unat a mod perceptronCount s) then 1 else 0))
                               AND historyRegisterMask s]
            \<and> path s2 = (if length (path s') \<le> globalPredictorSize s then a # path s'
                          else butlast (a # path s'))
            \<and> (path s2 = path s' \<longrightarrow> path s' = replicate (globalPredictorSize s + 1) a))"
proof -
  from lookup_effect [OF assms, of a] obtain h s' where
    1: "lookup tid a s = Inr (0 \<le> y_out s (unat a mod perceptronCount s), h, s')"
      "globalHistory h = SG s ! tid"
      "globalPredTaken h = (0 \<le> y_out s (unat a mod perceptronCount s))"
      "length (SR s') = globalPredictorSize s + 1"
      "SR s' ! 0 = 0"
      "\<forall>j. 1 \<le> j \<and> j \<le> globalPredictorSize s \<longrightarrow>
            SR s' ! (globalPredictorSize s - j + 1) =
              (if 0 \<le> y_out s (unat a mod perceptronCount s)
               then SR s ! (globalPredictorSize s - j) + weightsTable s ! (unat a mod perceptronCount s) ! j
               else SR s ! (globalPredictorSize s - j) - weightsTable s ! (unat a mod perceptronCount s) ! j)"
      "SG s' = (SG s)[tid := (push_bit 1 (SG s ! tid)
                                 OR (if 0 \<le> y_out s (unat a mod perceptronCount s) then 1 else 0))
                               AND historyRegisterMask s]"
      "path s' = (if length (path s) \<le> globalPredictorSize s then a # path s
                    else butlast (a # path s))"
      "G s' = G s" "R s' = R s" "weightsTable s' = weightsTable s"
      "globalPredictorSize s' = globalPredictorSize s"
    and c: "perceptronCount s' = perceptronCount s"
      "historyRegisterMask s' = historyRegisterMask s"
    and wf': "wf s'"
    by blast
  have tid': "tid < length (SG s')" using assms(2) 1(7) by simp
  from lookup_effect [OF wf' tid', of a] obtain h2 s2 where
    2: "lookup tid a s' = Inr (0 \<le> y_out s' (unat a mod perceptronCount s), h2, s2)"
      "globalHistory h2 = SG s' ! tid"
      "SR s2 ! 0 = 0"
      "\<forall>j. 1 \<le> j \<and> j \<le> globalPredictorSize s \<longrightarrow>
                  SR s2 ! (globalPredictorSize s - j + 1) =
                    (if 0 \<le> y_out s' (unat a mod perceptronCount s)
                     then SR s' ! (globalPredictorSize s - j) + weightsTable s ! (unat a mod perceptronCount s) ! j
                     else SR s' ! (globalPredictorSize s - j) - weightsTable s ! (unat a mod perceptronCount s) ! j)"
      "SG s2 = (SG s')[tid := (push_bit 1 (SG s' ! tid)
                                 OR (if 0 \<le> y_out s' (unat a mod perceptronCount s) then 1 else 0))
                               AND historyRegisterMask s]"
      "path s2 = (if length (path s') \<le> globalPredictorSize s then a # path s'
                          else butlast (a # path s'))"
    unfolding c 1(11) 1(12) by blast
  have len: "length (path s') \<le> globalPredictorSize s + 1"
    using wf' 1(12) by (simp add: wf_def)
  have 3: "path s' = replicate (globalPredictorSize s + 1) a" if eq: "path s2 = path s'"
  proof (cases "length (path s') \<le> globalPredictorSize s")
    case True
    with 2(6) eq have "a # path s' = path s'" by simp
    then show ?thesis by simp
  next
    case False
    with 2(6) eq have "path s' = butlast (a # path s')" by simp
    from butlast_fixed [OF this] have "path s' = replicate (length (path s')) a" .
    moreover have "length (path s') = globalPredictorSize s + 1" using False len by simp
    ultimately show ?thesis by simp
  qed
  from 1 2 3 show ?thesis by blast
qed

theorem lookup_commits_once_witness:
  "wf engine4 \<and> 0 < length (SG engine4)
   \<and> (\<exists>h s'. lookup 0 7 engine4 = Inr (True, h, s')
         \<and> globalHistory h = 0 \<and> SG s' = [1] \<and> path s' = [7]
         \<and> (\<exists>h2 s2. lookup 0 7 s' = Inr (True, h2, s2)
               \<and> globalHistory h2 = 1 \<and> SG s2 = [3] \<and> path s2 = [7, 7]))"
proof -
  have h1: "wf engine4" by (rule wf_engine4)
  have h2: "0 < length (SG engine4)" by (simp add: engine4_def)
  have p: "unat (7 :: Addr) mod perceptronCount engine4 = 7" by (simp add: engine4_def)
  have y: "y_out engine4 7 = 0" by (simp add: y_out_def engine4_def)
  from lookup_commits_once [OF h1 h2, of 7] obtain h s' h' s2 where
    a: "lookup 0 7 engine4 = Inr (0 \<le> y_out engine4 7, h, s')"
      "globalHistory h = SG engine4 ! 0"
      "\<forall>j. 1 \<le> j \<and> j \<le> globalPredictorSize engine4 \<longrightarrow>
            SR s' ! (globalPredictorSize engine4 - j + 1) =
              (if 0 \<le> y_out engine4 7
               then SR engine4 ! (globalPredictorSize engine4 - j) + weightsTable engine4 ! 7 ! j
               else SR engine4 ! (globalPredictorSize engine4 - j) - weightsTable engine4 ! 7 ! j)"
      "SG s' = (SG engine4)[0 := (push_bit 1 (SG engine4 ! 0)
                                 OR (if 0 \<le> y_out engine4 7 then 1 else 0))
                               AND historyRegisterMask engine4]"
      "path s' = (if length (path engine4) \<le> globalPredictorSize engine4 then 7 # path engine4
                    else butlast (7 # path engine4))"
      "weightsTable s' = weightsTable engine4"
      "globalPredictorSize s' = globalPredictorSize engine4"
    and b: "lookup 0 7 s' = Inr (0 \<le> y_out s' 7, h', s2)"
      "globalHistory h' = SG s' ! 0"
      "SG s2 = (SG s')[0 := (push_bit 1 (SG s' ! 0)
                                 OR (if 0 \<le> y_out s' 7 then 1 else 0))
                               AND historyRegisterMask engine4]"
      "path s2 = (if length (path s') \<le> globalPredictorSize engine4 then 7 # path s'
                          else butlast (7 # path s'))"
    unfolding p by blast
  have sg: "SG s' = [1]" using a(4) y by (simp add: engine4_def)
  have pa: "path s' = [7]" using a(5) by (simp add: engine4_def)
  have sr: "SR s' ! 4 = 0"
    using a(3) [rule_format, of 1] y by (simp add: engine4_def)
  have y': "y_out s' 7 = 0"
    using sr a(6) a(7) by (simp add: y_out_def engine4_def)
  have "lookup 0 7 engine4 = Inr (True, h, s')" using a(1) y by simp
  moreover have "globalHistory h = 0" using a(2) by (simp add: engine4_def)
  moreover have "lookup 0 7 s' = Inr (True, h', s2)" using b(1) y' by simp
  moreover have "globalHistory h' = 1" using b(2) sg by simp
  moreover have "SG s2 = [3]" using b(3) sg y' by (simp add: engine4_def)
  moreover have "path s2 = [7, 7]" using b(4) pa by (simp add: engine4_def)
  ultimately show ?thesis using h1 h2 sg pa by blast
qed


section \<open>Round trip of lookup and squash\<close>

text \<open>
  C6. Round trip. In a well-formed engine with nothing speculated (\<open>SR = R\<close> and
  \<open>SG = G\<close>, as in a freshly constructed engine), \<open>lookup\<close> followed at once by \<open>squash\<close>
  with the record that \<open>lookup\<close> returned leaves both ledgers and both history registers
  as they were before the \<open>lookup\<close>.
\<close>

theorem lookup_squash_round_trip:
  assumes "wf s" and "tid < length (SG s)" and "SR s = R s" and "SG s = G s"
  shows "\<exists>b h s1 s2. lookup tid a s = Inr (b, h, s1)
       \<and> squash tid (Some h) s1 = Inr s2
       \<and> SR s2 = SR s \<and> R s2 = R s \<and> SG s2 = SG s \<and> G s2 = G s"
proof -
  from lookup_effect [OF assms(1,2), of a] obtain h s1 where
    l: "lookup tid a s = Inr (0 \<le> y_out s (unat a mod perceptronCount s), h, s1)"
    and sg: "SG s1 = (SG s)[tid := (push_bit 1 (SG s ! tid)
                                 OR (if 0 \<le> y_out s (unat a mod perceptronCount s) then 1 else 0))
                               AND historyRegisterMask s]"
    and c: "G s1 = G s" "R s1 = R s"
    by blast
  have t: "tid < length (SG s1)" "tid < length (G s1)"
    using assms(2,4) sg c by simp_all
  let ?s2 = "s1\<lparr> SG := (SG s1)[tid := G s1 ! tid], SR := R s1 \<rparr>"
  have q: "squash tid (Some h) s1 = Inr ?s2" by (rule squash_eq [OF t])
  have "SG ?s2 = SG s" using sg c assms(4) by (simp add: list_update_same_conv)
  moreover have "SR ?s2 = SR s" "R ?s2 = R s" "G ?s2 = G s" using c assms(3) by simp_all
  ultimately show ?thesis using l q by blast
qed

theorem lookup_squash_round_trip_witness:
  "NeuroPathBP_init 4 1 = Inr engine4
   \<and> wf engine4 \<and> 0 < length (SG engine4) \<and> SR engine4 = R engine4 \<and> SG engine4 = G engine4
   \<and> (\<exists>b h s1 s2. lookup 0 7 engine4 = Inr (b, h, s1)
       \<and> squash 0 (Some h) s1 = Inr s2
       \<and> SR s2 = [0, 0, 0, 0, 0] \<and> R s2 = [0, 0, 0, 0, 0] \<and> SG s2 = [0] \<and> G s2 = [0])"
proof -
  have h: "0 < length (SG engine4)" "SR engine4 = R engine4" "SG engine4 = G engine4"
    by (simp_all add: engine4_def)
  from lookup_squash_round_trip [OF wf_engine4 h, of 7]
  show ?thesis using init_engine4 wf_engine4 h by (simp add: engine4_def)
qed

section \<open>The learning gate\<close>

text \<open>
  C7. When \<open>update\<close> is called with \<open>squashed = false\<close> and the evaluation
  \<open>y = weights[p][0] + SR[H]\<close> of the branch's perceptron has \<open>|y| > theta\<close>, the call
  leaves the whole weight table as it is: no bias and no position weight of any
  perceptron changes. (For \<open>y\<close> the least int, \<open>abs(y)\<close> is undefined in C++ and the
  model returns an error, so no returned state belongs to that case.)
\<close>

theorem learning_gate:
  assumes "update tid a taken h False s = Inr s'"
    and "theta s < \<bar>y_out s (unat a mod perceptronCount s)\<bar>"
  shows "weightsTable s' = weightsTable s"
  using assms
  by (auto simp add: update_def Let_def split: if_splits sum.splits)

theorem learning_gate_witness:
  "update 0 7 True (Some rec0) False
       (engine4\<lparr> weightsTable := replicate 10 [40, 0, 0, 0, 0], path := [7] \<rparr>)
     = Inr (engine4\<lparr> G := [1], weightsTable := replicate 10 [40, 0, 0, 0, 0], path := [7] \<rparr>)
   \<and> theta (engine4\<lparr> weightsTable := replicate 10 [40, 0, 0, 0, 0], path := [7] \<rparr>) = 31
   \<and> y_out (engine4\<lparr> weightsTable := replicate 10 [40, 0, 0, 0, 0], path := [7] \<rparr>) 7 = 40"
proof -
  let ?s = "engine4\<lparr> weightsTable := replicate 10 [40, 0, 0, 0, 0], path := [7] \<rparr>"
  have u: "update 0 7 True (Some rec0) False ?s
     = Inr (engine4\<lparr> G := [1], weightsTable := replicate 10 [40, 0, 0, 0, 0], path := [7] \<rparr>)"
    by (simp add: eval4)
  have y: "y_out ?s 7 = 40" by (simp add: eval4)
  have t: "theta ?s = 31" by (simp add: engine4_def)
  have "theta ?s < \<bar>y_out ?s (unat (7 :: Addr) mod perceptronCount ?s)\<bar>"
    by (simp add: eval4)
  from learning_gate [OF u this] show ?thesis using u y t by simp
qed

section \<open>Construction for the powers of two\<close>

text \<open>
  C8. \<open>globalPredictorSize = 1\<close> is a power of two and passes both checks of the
  constructor. Then \<open>globalHistoryBits = ceilLog2(1) = 0\<close>, and the constructor evaluates
  \<open>1 << (globalHistoryBits - 1)\<close> with an unsigned count of \<open>2^32 - 1\<close>: the construction
  has no defined result.
\<close>

theorem construction_undefined_for_size_1:
  "isPowerOf2 1 \<and> ceilLog2 1 = 0 \<and> NeuroPathBP_init 1 1 = Inl UndefinedShift"
  by (simp add: NeuroPathBP_init_def isPowerOf2_def ceilLog2_def mask_bits_def Let_def)

lemma floorLog2_pow2_minus1: "floorLog2 (2 ^ Suc k - 1) = k"
proof (induction k)
  case 0
  show ?case by (simp add: floorLog2.simps)
next
  case (Suc k)
  have ge: "(2 :: nat) \<le> 2 ^ Suc (Suc k) - 1"
  proof -
    have "(1 :: nat) \<le> 2 ^ k" by simp
    then have "(4 :: nat) \<le> 2 ^ Suc (Suc k)" by simp
    then show ?thesis by linarith
  qed
  have half: "((2 :: nat) ^ Suc (Suc k) - 1) div 2 = 2 ^ Suc k - 1"
  proof -
    have "(1 :: nat) \<le> 2 ^ Suc k" by simp
    then obtain m where m: "(2 :: nat) ^ Suc k = Suc m" by (cases "(2 :: nat) ^ Suc k") simp_all
    have "(2 :: nat) ^ Suc (Suc k) = 2 * 2 ^ Suc k" by simp
    then show ?thesis unfolding m by simp
  qed
  have "floorLog2 (2 ^ Suc (Suc k) - 1) = Suc (floorLog2 ((2 ^ Suc (Suc k) - 1) div 2))"
    using ge by (subst floorLog2.simps) simp
  then show ?case unfolding half Suc.IH .
qed

lemma unat_pow2:
  assumes "k < 32"
  shows "unat ((2 :: u32) ^ k) = 2 ^ k"
proof -
  have "(2 :: u32) ^ k = of_nat (2 ^ k)" by simp
  also have "unat (of_nat (2 ^ k) :: u32) = 2 ^ k mod 2 ^ 32"
    by (simp only: unat_of_nat) (simp add: take_bit_eq_mod)
  also have "\<dots> = 2 ^ k"
  proof -
    have "(2 :: nat) ^ k < 2 ^ 32" using assms by (rule power_strict_increasing) simp
    then show ?thesis by simp
  qed
  finally show ?thesis .
qed

lemma pow2_nonzero:
  assumes "k < 32"
  shows "(2 :: u32) ^ k \<noteq> 0"
  using assms by simp

lemma unat_pow2_minus1:
  assumes "k < 32"
  shows "unat ((2 :: u32) ^ k - 1) = 2 ^ k - 1"
  using unat_minus_one [OF pow2_nonzero [OF assms]] unat_pow2 [OF assms] by simp

lemma isPowerOf2_pow2:
  assumes "k < 32"
  shows "isPowerOf2 (2 ^ k)"
proof -
  have nz: "(2 :: u32) ^ k \<noteq> 0" by (rule pow2_nonzero [OF assms])
  have m: "(2 :: u32) ^ k - 1 = mask k" by (simp add: mask_eq_exp_minus_1)
  have "(2 :: u32) ^ k AND NOT (mask k) = 2 ^ k"
    by (intro bit_word_eqI) (auto simp add: bit_simps)
  with nz m show ?thesis by (simp add: isPowerOf2_def)
qed

lemma ceilLog2_pow2:
  assumes "1 \<le> k" "k < 32"
  shows "ceilLog2 (2 ^ k) = k"
proof -
  obtain k' where k': "k = Suc k'" using assms(1) by (cases k) simp_all
  have ne1: "(2 :: u32) ^ k \<noteq> 1"
  proof
    assume "(2 :: u32) ^ k = 1"
    then have "unat ((2 :: u32) ^ k) = 1" by simp
    moreover have "unat ((2 :: u32) ^ k) = 2 ^ k" by (rule unat_pow2 [OF assms(2)])
    ultimately have "(2 :: nat) ^ k = 1" by simp
    with assms(1) show False by simp
  qed
  have "floorLog2 (unat ((2 :: u32) ^ k - 1)) = k'"
    using unat_pow2_minus1 [OF assms(2)] floorLog2_pow2_minus1 [of k'] k' by simp
  with ne1 k' show ?thesis by (simp add: ceilLog2_def)
qed

text \<open>
  The other powers of two are constructed as the spec says: for \<open>H = 2^k\<close> with
  \<open>1 \<le> k \<le> 31\<close> neither check fails, \<open>globalHistoryBits = k\<close>, both masks are
  \<open>H - 1\<close>, the histories, ledgers and weights are zero, and the weight bounds are
  \<open>2^(k-1) - 1\<close> and \<open>-2^(k-1)\<close>. A size that is not a power of two is fatal. (\<open>theta\<close> is
  an unbounded integer here; for \<open>k = 30\<close> and \<open>k = 31\<close> its value is beyond a 32-bit
  int, and whether the stored member can hold it depends on the missing declaration.)
\<close>

lemma construction_succeeds_from_size_2:
  assumes "1 \<le> k" "k \<le> 31"
  shows "NeuroPathBP_init (2 ^ k) n =
     Inr \<lparr> globalPredictorSize = 2 ^ k,
           globalHistoryBits = k,
           globalHistoryMask = 2 ^ k - 1,
           historyRegisterMask = 2 ^ k - 1,
           G = replicate n 0,
           SG = replicate n 0,
           SR = replicate (2 ^ k + 1) 0,
           R = replicate (2 ^ k + 1) 0,
           perceptronCount = 10,
           theta = theta_of (2 ^ k),
           weightsTable = replicate 10 (replicate (2 ^ k + 1) 0),
           max_weight = 2 ^ (k - 1) - 1,
           min_weight = - (2 ^ (k - 1)),
           path = [] \<rparr>"
proof -
  have k: "k < 32" using assms(2) by simp
  have c: "ceilLog2 (2 ^ k) = k" by (rule ceilLog2_pow2 [OF assms(1) k])
  have p: "isPowerOf2 (2 ^ k)" by (rule isPowerOf2_pow2 [OF k])
  have m: "(ucast (mask_bits k) :: u32) = 2 ^ k - 1"
    using mask_bits_eq [OF k] by (simp add: mask_eq_exp_minus_1)
  have u: "unat ((2 :: u32) ^ k) = 2 ^ k" by (rule unat_pow2 [OF k])
  show ?thesis
    using assms k by (simp add: NeuroPathBP_init_def Let_def c p m u)
qed

lemma construction_of_engine4:
  "(1 :: nat) \<le> 2 \<and> (2 :: nat) \<le> 31
   \<and> NeuroPathBP_init (2 ^ 2) 1 = Inr engine4"
  using construction_succeeds_from_size_2 [of 2 1]
  by (simp add: engine4_def theta_of_def replicate_5 replicate_10)

lemma init_not_power:
  assumes "\<not> isPowerOf2 psize"
  shows "NeuroPathBP_init psize n = Inl FatalError"
  using assms by (simp add: NeuroPathBP_init_def Let_def)

section \<open>The path is never empty when update reads it\<close>

text \<open>
  C9. Start from a constructed engine and run any sequence of calls that contains at
  least one \<open>lookup\<close> or \<open>uncondBranch\<close>. Then the path holds at least one and at most
  \<open>H + 1\<close> addresses, and an \<open>update\<close> called in that state does not divide by zero:
  the remainder \<open>j % path.size()\<close> of the learning loop is defined.
\<close>

theorem path_nonempty_before_update:
  assumes "NeuroPathBP_init psize n = Inr s0"
    and "run cs s0 = Inr s"
    and "\<exists>c\<in>set cs. speculative c"
  shows "1 \<le> length (path s)
       \<and> length (path s) \<le> globalPredictorSize s + 1
       \<and> update tid a taken h sq s \<noteq> Inl DivisionByZero"
proof -
  have b0: "length (path s0) \<le> globalPredictorSize s0 + 1"
    using init_fields(1) [OF assms(1)] by simp
  from run_path [OF assms(2) b0] assms(3)
  have p: "length (path s) \<le> globalPredictorSize s + 1" "path s \<noteq> []"
    by blast+
  have "perceptronCount s = 10"
    using run_static [OF assms(2)] init_fields(2) [OF assms(1)] by simp
  then have "perceptronCount s \<noteq> 0" by simp
  from update_no_div [OF p(2) this] p show ?thesis
    by (cases "path s") simp_all
qed

theorem path_nonempty_before_update_witness:
  "NeuroPathBP_init 4 1 = Inr engine4
   \<and> run [Lookup 0 7] engine4 = Inr (engine4\<lparr> SG := [1], path := [7] \<rparr>)
   \<and> speculative (Lookup 0 7)
   \<and> length (path (engine4\<lparr> SG := [1], path := [7] \<rparr>)) = 1
   \<and> update 0 7 False (Some \<lparr> globalHistory = 0, globalPredTaken = True, globalUsed = None \<rparr>)
        False (engine4\<lparr> SG := [1], path := [7] \<rparr>) \<noteq> Inl DivisionByZero"
proof -
  have r: "run [Lookup 0 7] engine4 = Inr (engine4\<lparr> SG := [1], path := [7] \<rparr>)"
    by (simp add: eval4)
  have e: "\<exists>c\<in>set [Lookup 0 7]. speculative c" by simp
  from path_nonempty_before_update [OF init_engine4 r e, of 0 7 False
      "Some \<lparr> globalHistory = 0, globalPredTaken = True, globalUsed = None \<rparr>" False]
  show ?thesis using init_engine4 r by simp
qed

section \<open>btbUpdate\<close>

lemma btb_word:
  "(ucast ((ucast (g :: u32) :: 64 word) AND ((ucast (m :: u32) :: 64 word) AND NOT 1)) :: u32)
     = g AND m AND NOT 1"
  by (rule bit_word_eqI) (auto simp add: bit_simps)

text \<open>
  C10. \<open>btbUpdate(tid, addr)\<close> sets \<open>G[tid]\<close> to
  \<open>G[tid] AND historyRegisterMask AND NOT 1\<close>, which clears its least significant
  bit, and changes nothing else of the engine: the committed history changes without
  any call of \<open>update\<close>.
\<close>

theorem btbUpdate_clears_lsb:
  assumes "tid < length (G s)"
  shows "btbUpdate tid a s =
           Inr (s\<lparr>G := (G s)[tid := G s ! tid AND historyRegisterMask s AND NOT 1]\<rparr>)
         \<and> \<not> bit (G s ! tid AND historyRegisterMask s AND NOT 1) 0"
  using assms unfolding btbUpdate_def btb_word by (simp add: bit_simps)

theorem btbUpdate_clears_lsb_witness:
  "0 < length (G (engine4\<lparr>G := [3]\<rparr>))
   \<and> btbUpdate 0 0 (engine4\<lparr>G := [3]\<rparr>) = Inr (engine4\<lparr>G := [2]\<rparr>)"
  using btbUpdate_clears_lsb [of 0 "engine4\<lparr>G := [3]\<rparr>" 0] by (simp add: engine4_def)

end
